theory Spec2Isabelle
  imports Complex_Main "HOL-Library.Sublist"
begin

section \<open>Python strings\<close>

text \<open>
  A Python \<open>str\<close> is a sequence of Unicode code points. The crawler compares page text
  with non-ASCII literals and trims Unicode whitespace, so a string is modelled as the list
  of its code points; ASCII literals are written through \<open>ustr\<close>.
\<close>

type_synonym ustring = "nat list"

definition ustr :: "string \<Rightarrow> ustring" where
  "ustr s = map of_char s"

text \<open>\<open>sub in s\<close> on strings: \<open>sub\<close> occurs in \<open>s\<close> as a contiguous run.\<close>

definition py_in :: "ustring \<Rightarrow> ustring \<Rightarrow> bool" where
  "py_in sub s = sublist sub s"

text \<open>\<open>s.startswith(p)\<close>.\<close>

definition startswith :: "ustring \<Rightarrow> ustring \<Rightarrow> bool" where
  "startswith s p = prefix p s"

text \<open>
  \<open>str.lower()\<close>. The only caller compares the result with an ASCII prefix, so the
  model is exact on every code point whose lowercase form contains an ASCII character
  (\<open>A\<close> to \<open>Z\<close>, U+0130 and the Kelvin sign U+212A) and keeps every other code point.
\<close>

definition lower_cp :: "nat \<Rightarrow> ustring" where
  "lower_cp c = (if 65 \<le> c \<and> c \<le> 90 then [c + 32]
                 else if c = 0x130 then [0x69, 0x307]
                 else if c = 0x212A then [0x6B]
                 else [c])"

definition py_lower :: "ustring \<Rightarrow> ustring" where
  "py_lower s = concat (map lower_cp s)"

text \<open>The code points for which \<open>str.isspace()\<close> holds; \<open>str.strip()\<close> removes them at both ends.\<close>

definition isspace :: "nat \<Rightarrow> bool" where
  "isspace c \<longleftrightarrow> (0x9 \<le> c \<and> c \<le> 0xD) \<or> (0x1C \<le> c \<and> c \<le> 0x20) \<or> c = 0x85 \<or> c = 0xA0
     \<or> c = 0x1680 \<or> (0x2000 \<le> c \<and> c \<le> 0x200A) \<or> c = 0x2028 \<or> c = 0x2029
     \<or> c = 0x202F \<or> c = 0x205F \<or> c = 0x3000"

definition lstrip :: "ustring \<Rightarrow> ustring" where
  "lstrip s = dropWhile isspace s"

definition strip :: "ustring \<Rightarrow> ustring" where
  "strip s = rev (lstrip (rev (lstrip s)))"

text \<open>\<open>s.split(sep)\<close> for a one-character separator: never empty, \<open>''.split(sep) == ['']\<close>.\<close>

fun split :: "nat \<Rightarrow> ustring \<Rightarrow> ustring list" where
  "split sep [] = [[]]"
| "split sep (c # cs) =
     (if c = sep then [] # split sep cs
      else (case split sep cs of
              [] \<Rightarrow> [[c]]
            | w # ws \<Rightarrow> (c # w) # ws))"

text \<open>\<open>sep.join(xs)\<close>.\<close>

fun join :: "ustring \<Rightarrow> ustring list \<Rightarrow> ustring" where
  "join sep [] = []"
| "join sep [x] = x"
| "join sep (x # y # ys) = x @ sep @ join sep (y # ys)"

section \<open>Errors and effects\<close>

text \<open>
  Exceptions are values. \<open>HTTPError status suffix\<close> stands for
  \<open>requests.HTTPError(f'{status}' + suffix)\<close>; \<open>NetworkError\<close> is whatever
  \<open>Session.get\<close> itself raises (time-out, connection failure), which \<open>load_html\<close>
  does not catch; \<open>IndexError\<close> and \<open>UnboundLocalError\<close> are the failures of
  \<open>xs[0]\<close> on an empty list and of reading a local before its assignment.
\<close>

datatype error =
    ValueError ustring
  | RuntimeError ustring
  | HTTPError int ustring
  | NetworkError ustring
  | IndexError
  | UnboundLocalError

text \<open>
  One \<open>Session.get\<close> call: the fixed browser headers are constants of the source and
  are left out; the request is told apart by its URL, the \<open>Referer\<close> header, the
  cookie dictionary and the time-out.
\<close>

record request =
  req_url :: ustring
  req_referer :: ustring
  req_cookies :: "(ustring \<rightharpoonup> ustring) option"
  req_timeout :: int

datatype get_result = Response int ustring | Raises error

text \<open>
  What the program does to the world, in order: a GET, a \<open>time.sleep\<close>, a row handed
  to the CSV writer.
\<close>

datatype event = Get request | Sleep real | WriteRow "ustring list"

text \<open>The remote site: its answer may depend on everything the program did before.\<close>

type_synonym net = "event list \<Rightarrow> request \<Rightarrow> get_result"

section \<open>Cookie parser\<close>

text \<open>\<open>xs[i]\<close> on a Python list.\<close>

definition py_index :: "'a list \<Rightarrow> nat \<Rightarrow> error + 'a" where
  "py_index xs i = (if i < length xs then Inr (xs ! i) else Inl IndexError)"

definition eq_sign :: nat where "eq_sign = 0x3D"
definition semicolon :: nat where "semicolon = 0x3B"

text \<open>
  \<open>_format_cookies\<close>: the dictionary comprehension over \<open>cookies_str.split(';')\<close>,
  keeping the pairs that contain \<open>=\<close>; a later pair overwrites an earlier one with the
  same key.
\<close>

definition cookie_pair :: "ustring \<Rightarrow> error + (ustring \<times> ustring)" where
  "cookie_pair pair =
     (case py_index (split eq_sign pair) 0 of
        Inl e \<Rightarrow> Inl e
      | Inr k \<Rightarrow>
          (case py_index (split eq_sign pair) 1 of
             Inl e \<Rightarrow> Inl e
           | Inr v \<Rightarrow> Inr (strip k, strip v)))"

fun format_cookies_loop ::
  "ustring list \<Rightarrow> (ustring \<rightharpoonup> ustring) \<Rightarrow> error + (ustring \<rightharpoonup> ustring)" where
  "format_cookies_loop [] d = Inr d"
| "format_cookies_loop (pair # pairs) d =
     (if py_in [eq_sign] pair then
        (case cookie_pair pair of
           Inl e \<Rightarrow> Inl e
         | Inr (k, v) \<Rightarrow> format_cookies_loop pairs (d(k \<mapsto> v)))
      else format_cookies_loop pairs d)"

definition format_cookies :: "ustring \<Rightarrow> error + (ustring \<rightharpoonup> ustring)" where
  "format_cookies cookies_str = format_cookies_loop (split semicolon cookies_str) Map.empty"

section \<open>Page fetcher\<close>

text \<open>The challenge-page marker, U+8EAB U+4EFD U+6838 U+5B9E.\<close>

definition challenge :: ustring where
  "challenge = [0x8EAB, 0x4EFD, 0x6838, 0x5B9E]"

definition challenge_message :: ustring where
  "challenge_message = challenge @ [0x9875, 0x9762, 0xFF0C] @ ustr ''Cookie '' @
     [0x53EF, 0x80FD, 0x65E0, 0x6548, 0x6216, 0x9700, 0x8981, 0x66F4, 0x65B0]"

text \<open>
  The body of \<open>for attempt in range(3)\<close>, one equation per remaining attempt. The
  history \<open>tr\<close> is returned extended by the events of the attempts made.
\<close>

fun load_html_loop ::
  "net \<Rightarrow> request \<Rightarrow> nat list \<Rightarrow> error option \<Rightarrow> event list \<Rightarrow> event list \<times> (error + ustring)" where
  "load_html_loop nt rq [] last_err tr =
     (case last_err of
        Some e \<Rightarrow> (tr, Inl e)
      | None \<Rightarrow> (tr, Inl (RuntimeError (ustr ''Unknown error fetching page''))))"
| "load_html_loop nt rq (attempt # rest) last_err tr =
     (case nt tr rq of
        Raises e \<Rightarrow> (tr @ [Get rq], Inl e)
      | Response status_code text \<Rightarrow>
          if status_code = 200 \<and> \<not> py_in challenge text then (tr @ [Get rq], Inr text)
          else
            let err = (if status_code = 200 then RuntimeError challenge_message
                       else if status_code = 403 \<or> status_code = 429
                       then HTTPError status_code (ustr '' Forbidden/Too Many Requests'')
                       else HTTPError status_code (ustr '' HTTP error''));
                tr' = (if attempt < 2 then tr @ [Get rq, Sleep (1.5 + real attempt)]
                       else tr @ [Get rq])
            in load_html_loop nt rq rest (Some err) tr')"

definition default_referer :: ustring where
  "default_referer = ustr ''https://www.dianping.com/''"

definition load_html ::
  "net \<Rightarrow> ustring \<Rightarrow> ustring option \<Rightarrow> int \<Rightarrow> ustring option \<Rightarrow> event list
     \<Rightarrow> event list \<times> (error + ustring)" where
  "load_html nt url cookies timeout referer tr =
     (if \<not> (startswith (py_lower url) (ustr ''http://'') \<or> startswith (py_lower url) (ustr ''https://''))
      then (tr, Inl (ValueError (ustr ''Only URL is supported. Please provide a valid http(s) URL.'')))
      else
        (case (case cookies of
                 None \<Rightarrow> Inr None
               | Some c \<Rightarrow> if c = [] then Inr None else map_sum id Some (format_cookies c)) of
           Inl e \<Rightarrow> (tr, Inl e)
         | Inr cookie_dict \<Rightarrow>
             load_html_loop nt
               \<lparr>req_url = url,
                req_referer = (case referer of None \<Rightarrow> default_referer
                               | Some r \<Rightarrow> if r = [] then default_referer else r),
                req_cookies = cookie_dict,
                req_timeout = timeout\<rparr>
               [0..<3] None tr))"

section \<open>Parsed pages\<close>

text \<open>
  The tree that \<open>etree.HTML\<close> builds, as XPath sees it: an element has a tag, its
  attributes and its child nodes in document order; a text node has its text. The parser
  itself belongs to lxml and is a parameter: it gives a root element, or \<open>None\<close>.
\<close>

datatype node = Element ustring "(ustring \<times> ustring) list" "node list" | Text ustring

type_synonym parser = "ustring \<Rightarrow> node option"

fun kids :: "node \<Rightarrow> node list" where
  "kids (Element g a cs) = cs"
| "kids (Text t) = []"

text \<open>
  All nodes of a subtree in document order, each with its ancestors inside the walk,
  nearest first.
\<close>

fun walk :: "node list \<Rightarrow> node \<Rightarrow> (node list \<times> node) list" where
  "walk anc (Text t) = [(anc, Text t)]"
| "walk anc (Element g a cs) =
     (anc, Element g a cs) # concat (map (walk (Element g a cs # anc)) cs)"

text \<open>\<open>//\<close> from the document: every node. \<open>.//\<close> from a context node: its proper descendants.\<close>

definition all_nodes :: "node \<Rightarrow> (node list \<times> node) list" where
  "all_nodes document = walk [] document"

definition descendants :: "node \<Rightarrow> (node list \<times> node) list" where
  "descendants n = concat (map (walk []) (kids n))"

text \<open>The node test \<open>g\<close> of a step, and \<open>contains(@class, m)\<close>: a missing attribute is the empty string.\<close>

fun has_tag :: "ustring \<Rightarrow> node \<Rightarrow> bool" where
  "has_tag g (Element g' a cs) = (g' = g)"
| "has_tag g (Text t) = False"

fun attr :: "ustring \<Rightarrow> node \<Rightarrow> ustring option" where
  "attr k (Element g a cs) = map_of a k"
| "attr k (Text t) = None"

definition class_contains :: "ustring \<Rightarrow> node \<Rightarrow> bool" where
  "class_contains m n =
     py_in m (case attr (ustr ''class'') n of None \<Rightarrow> [] | Some v \<Rightarrow> v)"

text \<open>
  \<open>.//P/text()\<close>: the text nodes whose parent satisfies \<open>P\<close>; and \<open>.//Q//P/text()\<close>:
  those whose parent satisfies \<open>P\<close> and lies below a node satisfying \<open>Q\<close>.
\<close>

fun text_child_of :: "(node \<Rightarrow> bool) \<Rightarrow> node list \<times> node \<Rightarrow> ustring list" where
  "text_child_of P (p # rest, Text t) = (if P p then [t] else [])"
| "text_child_of P (anc, n) = []"

fun text_child_below :: "(node \<Rightarrow> bool) \<Rightarrow> (node \<Rightarrow> bool) \<Rightarrow> node list \<times> node \<Rightarrow> ustring list" where
  "text_child_below Q P (p # rest, Text t) = (if P p \<and> (\<exists>q \<in> set rest. Q q) then [t] else [])"
| "text_child_below Q P (anc, n) = []"

section \<open>Record extractor\<close>

record shop =
  name :: ustring
  avg_price :: ustring
  recommended_dishes :: "ustring list"

text \<open>The four XPath queries of \<open>extract_shops\<close>.\<close>

definition xpath_li_with_h4 :: "node \<Rightarrow> node list" where
  "xpath_li_with_h4 document =
     [li. (anc, li) \<leftarrow> all_nodes document, has_tag (ustr ''li'') li,
          \<exists>(a, d) \<in> set (descendants li). has_tag (ustr ''h4'') d]"

definition xpath_h4_text :: "node \<Rightarrow> ustring list" where
  "xpath_h4_text li = concat (map (text_child_of (has_tag (ustr ''h4''))) (descendants li))"

definition is_price_anchor :: "node \<Rightarrow> bool" where
  "is_price_anchor n \<longleftrightarrow> has_tag (ustr ''a'') n \<and> class_contains (ustr ''mean-price'') n"

definition xpath_price_text :: "node \<Rightarrow> ustring list" where
  "xpath_price_text li =
     concat (map (text_child_below is_price_anchor (has_tag (ustr ''b''))) (descendants li))"

definition is_recommend_div :: "node \<Rightarrow> bool" where
  "is_recommend_div n \<longleftrightarrow> has_tag (ustr ''div'') n \<and> class_contains (ustr ''recommend'') n"

definition is_recommend_click :: "node \<Rightarrow> bool" where
  "is_recommend_click n \<longleftrightarrow> has_tag (ustr ''a'') n \<and> class_contains (ustr ''recommend-click'') n"

definition xpath_dish_text :: "node \<Rightarrow> ustring list" where
  "xpath_dish_text li =
     concat (map (text_child_below is_recommend_div is_recommend_click) (descendants li))"

text \<open>
  The body of \<open>for li in ...\<close>: \<open>None\<close> is \<open>continue\<close>, \<open>Some\<close> the dictionary
  appended to \<open>results\<close>. Indexing is the fallible \<open>py_index\<close>, as in the source.
\<close>

definition extract_shop :: "node \<Rightarrow> error + shop option" where
  "extract_shop li =
     (let name_list = xpath_h4_text li in
      if name_list = [] then Inr None
      else
        (case py_index name_list 0 of
           Inl e \<Rightarrow> Inl e
         | Inr n0 \<Rightarrow>
             let avg_price_list = xpath_price_text li in
             (case (if avg_price_list \<noteq> [] then map_sum id strip (py_index avg_price_list 0)
                    else Inr []) of
                Inl e \<Rightarrow> Inl e
              | Inr price \<Rightarrow>
                  Inr (Some \<lparr>name = strip n0, avg_price = price,
                             recommended_dishes =
                               [strip t. t \<leftarrow> xpath_dish_text li, strip t \<noteq> []]\<rparr>))))"

fun extract_shops_loop :: "node list \<Rightarrow> shop list \<Rightarrow> error + shop list" where
  "extract_shops_loop [] results = Inr results"
| "extract_shops_loop (li # lis) results =
     (case extract_shop li of
        Inl e \<Rightarrow> Inl e
      | Inr None \<Rightarrow> extract_shops_loop lis results
      | Inr (Some s) \<Rightarrow> extract_shops_loop lis (results @ [s]))"

definition extract_shops :: "parser \<Rightarrow> ustring \<Rightarrow> error + shop list" where
  "extract_shops parse html_text =
     (case parse html_text of
        None \<Rightarrow> Inr []
      | Some document \<Rightarrow> extract_shops_loop (xpath_li_with_h4 document) [])"

section \<open>Pagination resolver\<close>

text \<open>
  XPath \<open>normalize-space\<close>: runs of XML white space (space, tab, line feed, carriage
  return) become one space, and the ends are trimmed.
\<close>

definition xml_space :: "nat \<Rightarrow> bool" where
  "xml_space c \<longleftrightarrow> c = 0x20 \<or> c = 0x9 \<or> c = 0xA \<or> c = 0xD"

fun xml_words :: "ustring \<Rightarrow> ustring list" where
  "xml_words [] = [[]]"
| "xml_words (c # cs) =
     (if xml_space c then [] # xml_words cs
      else (case xml_words cs of
              [] \<Rightarrow> [[c]]
            | w # ws \<Rightarrow> (c # w) # ws))"

definition normalize_space :: "ustring \<Rightarrow> ustring" where
  "normalize_space s = join [0x20] (filter (\<lambda>w. w \<noteq> []) (xml_words s))"

text \<open>\<open>text()\<close> as a string argument: the first text child, or the empty string.\<close>

fun text_nodes :: "node list \<Rightarrow> ustring list" where
  "text_nodes [] = []"
| "text_nodes (Text t # ns) = t # text_nodes ns"
| "text_nodes (Element g a cs # ns) = text_nodes ns"

definition first_text :: "node \<Rightarrow> ustring" where
  "first_text n = (case text_nodes (kids n) of [] \<Rightarrow> [] | t # ts \<Rightarrow> t)"

text \<open>The label of the next-page link, U+4E0B U+4E00 U+9875.\<close>

definition next_label :: ustring where
  "next_label = [0x4E0B, 0x4E00, 0x9875]"

definition is_next_anchor :: "node \<Rightarrow> bool" where
  "is_next_anchor n \<longleftrightarrow>
     has_tag (ustr ''a'') n \<and>
     (class_contains (ustr ''next'') n \<or> normalize_space (first_text n) = next_label)"

definition xpath_next_hrefs :: "node \<Rightarrow> ustring list" where
  "xpath_next_hrefs document =
     concat (map (\<lambda>(anc, n). if is_next_anchor n
                               then (case attr (ustr ''href'') n of None \<Rightarrow> [] | Some h \<Rightarrow> [h])
                               else [])
                 (all_nodes document))"

text \<open>\<open>urllib.parse.urljoin\<close> belongs to the standard library and is a parameter.\<close>

type_synonym urljoin = "ustring \<Rightarrow> ustring \<Rightarrow> ustring"

definition get_next_page_url :: "urljoin \<Rightarrow> node \<Rightarrow> ustring \<Rightarrow> error + ustring option" where
  "get_next_page_url uj document current_url =
     (let hrefs = xpath_next_hrefs document in
      if hrefs = [] then Inr None
      else
        (case py_index hrefs 0 of
           Inl e \<Rightarrow> Inl e
         | Inr next_href \<Rightarrow> Inr (Some (uj current_url next_href))))"

section \<open>Crawl driver and record sink\<close>

text \<open>The command-line arguments that reach the loop (the output path names the one file written).\<close>

record args =
  arg_url :: ustring
  arg_cookies :: ustring
  arg_timeout :: int
  arg_max_pages :: int
  arg_sleep :: real

text \<open>The locals of \<open>main\<close>; \<open>prev_url\<close> is unbound until its first assignment.\<close>

record crawl_state =
  current_url :: ustring
  prev_url :: "ustring option"
  page_index :: int
  trace :: "event list"

datatype flow = Next | Break | Raise error

datatype outcome = OutOfFuel | Done | Raised error

definition header_row :: "ustring list" where
  "header_row = [ustr ''name'', ustr ''avg_price'', ustr ''recommended_dishes'']"

text \<open>The row of one shop; the dishes are joined with U+3001.\<close>

definition shop_row :: "shop \<Rightarrow> ustring list" where
  "shop_row s =
     [name s, avg_price s,
      if recommended_dishes s \<noteq> [] then join [0x3001] (recommended_dishes s) else []]"

definition verification_message :: ustring where
  "verification_message =
     ustr ''Hit identity verification page. Provide valid logged-in cookies with --cookies.''"

text \<open>One pass through the body of \<open>while current_url\<close>.\<close>

definition crawl_page :: "parser \<Rightarrow> urljoin \<Rightarrow> net \<Rightarrow> args \<Rightarrow> crawl_state \<Rightarrow> crawl_state \<times> flow" where
  "crawl_page parse uj nt a st =
     (let st1 = st\<lparr>page_index := page_index st + 1\<rparr> in
      case (if page_index st1 = 1 then Inr default_referer
            else (case prev_url st1 of None \<Rightarrow> Inl UnboundLocalError | Some p \<Rightarrow> Inr p)) of
        Inl e \<Rightarrow> (st1, Raise e)
      | Inr referer \<Rightarrow>
          (case load_html nt (current_url st1) (Some (arg_cookies a)) (arg_timeout a)
                  (Some referer) (trace st1) of
             (tr, Inl e) \<Rightarrow> (st1\<lparr>trace := tr\<rparr>, Raise e)
           | (tr, Inr html_text) \<Rightarrow>
               let st2 = st1\<lparr>trace := tr\<rparr> in
               if py_in challenge html_text then (st2, Raise (RuntimeError verification_message))
               else
                 (case extract_shops parse html_text of
                    Inl e \<Rightarrow> (st2, Raise e)
                  | Inr shops \<Rightarrow>
                      let st3 = st2\<lparr>trace := trace st2 @ map (\<lambda>s. WriteRow (shop_row s)) shops\<rparr> in
                      if arg_max_pages a \<noteq> 0 \<and> page_index st3 \<ge> arg_max_pages a then (st3, Break)
                      else
                        (case parse html_text of
                           None \<Rightarrow> (st3, Break)
                         | Some doc \<Rightarrow>
                             let st4 = st3\<lparr>prev_url := Some (current_url st3)\<rparr> in
                             (case get_next_page_url uj doc (current_url st4) of
                                Inl e \<Rightarrow> (st4, Raise e)
                              | Inr None \<Rightarrow> (st4, Break)
                              | Inr (Some next_url) \<Rightarrow>
                                  if next_url = [] \<or> next_url = current_url st4 then (st4, Break)
                                  else
                                    let st5 = st4\<lparr>current_url := next_url\<rparr> in
                                    (if arg_sleep a > 0
                                     then st5\<lparr>trace := trace st5 @ [Sleep (arg_sleep a)]\<rparr>
                                     else st5, Next))))))"

text \<open>
  The loop may run for ever (a site can always offer a new next link), so it is run on
  fuel: \<open>OutOfFuel\<close> returns the state reached when the allowed number of passes is
  used up and the loop would go on.
\<close>

fun crawl_loop ::
  "parser \<Rightarrow> urljoin \<Rightarrow> net \<Rightarrow> args \<Rightarrow> nat \<Rightarrow> crawl_state \<Rightarrow> crawl_state \<times> outcome" where
  "crawl_loop parse uj nt a 0 st =
     (if current_url st = [] then (st, Done) else (st, OutOfFuel))"
| "crawl_loop parse uj nt a (Suc n) st =
     (if current_url st = [] then (st, Done)
      else
        (case crawl_page parse uj nt a st of
           (st', Next) \<Rightarrow> crawl_loop parse uj nt a n st'
         | (st', Break) \<Rightarrow> (st', Done)
         | (st', Raise e) \<Rightarrow> (st', Raised e)))"

text \<open>\<open>main\<close> after argument parsing: the header row, then the loop.\<close>

definition main :: "parser \<Rightarrow> urljoin \<Rightarrow> net \<Rightarrow> args \<Rightarrow> nat \<Rightarrow> crawl_state \<times> outcome" where
  "main parse uj nt a fuel =
     crawl_loop parse uj nt a fuel
       \<lparr>current_url = arg_url a, prev_url = None, page_index = 0,
        trace = [WriteRow header_row]\<rparr>"

text \<open>What the trace holds: the rows of the output file, and the requests sent.\<close>

fun rows_of :: "event list \<Rightarrow> ustring list list" where
  "rows_of [] = []"
| "rows_of (WriteRow r # es) = r # rows_of es"
| "rows_of (e # es) = rows_of es"

fun gets_of :: "event list \<Rightarrow> request list" where
  "gets_of [] = []"
| "gets_of (Get r # es) = r # gets_of es"
| "gets_of (e # es) = gets_of es"

section \<open>Example sites\<close>

definition url_a :: ustring where "url_a = ustr ''http://a''"

definition rq_a :: request where
  "rq_a = \<lparr>req_url = url_a, req_referer = default_referer, req_cookies = None, req_timeout = 60\<rparr>"

definition site_busy :: net where
  "site_busy tr rq = Response 429 []"



section \<open>Example pages\<close>

definition blank_heading_text :: ustring where
  "blank_heading_text = ustr ''<li><h4> </h4></li>''"

definition blank_heading_li :: node where
  "blank_heading_li = Element (ustr ''li'') [] [Element (ustr ''h4'') [] [Text [0x20]]]"

definition blank_heading_doc :: node where
  "blank_heading_doc = Element (ustr ''html'') [] [Element (ustr ''body'') [] [blank_heading_li]]"

definition parse_blank_heading :: parser where
  "parse_blank_heading t = (if t = blank_heading_text then Some blank_heading_doc else None)"

definition shop_b_li :: node where
  "shop_b_li = Element (ustr ''li'') [] [Element (ustr ''h4'') [] [Text (ustr ''Shop B'')]]"

definition shop_a_li :: node where
  "shop_a_li = Element (ustr ''li'') []
     [Element (ustr ''h4'') [] [Text (ustr ''Shop A'')],
      Element (ustr ''a'') [(ustr ''class'', ustr ''mean-price'')]
        [Text (ustr ''avg''), Element (ustr ''b'') [] [Text (ustr '' 35 '')]],
      Element (ustr ''div'') [(ustr ''class'', ustr ''recommend'')]
        [Text (ustr ''rec''),
         Element (ustr ''a'') [(ustr ''class'', ustr ''recommend-click'')] [Text (ustr ''Dish1'')],
         Element (ustr ''a'') [(ustr ''class'', ustr ''recommend-click'')] [Text (ustr '' '')],
         Element (ustr ''a'') [(ustr ''class'', ustr ''recommend-click'')] [Text (ustr '' Dish2 '')]]]"


definition join_on_host :: urljoin where
  "join_on_host base href = (if startswith href (ustr ''/'') then ustr ''http://a'' @ href else href)"

definition shop_c_li :: node where
  "shop_c_li = Element (ustr ''li'') []
     [Element (ustr ''h4'') [] [Text (ustr ''Shop C'')],
      Element (ustr ''a'') [(ustr ''class'', ustr ''mean-price'')]
        [Element (ustr ''b'') [] [Text (ustr ''50'')]],
      Element (ustr ''div'') [(ustr ''class'', ustr ''recommend'')]
        [Element (ustr ''a'') [(ustr ''class'', ustr ''recommend-click'')] [Text (ustr ''Dish3'')]]]"

definition next_anchor :: node where
  "next_anchor = Element (ustr ''a'') [(ustr ''class'', ustr ''next''), (ustr ''href'', ustr ''/page2'')]
     [Text next_label]"

definition page_one_text :: ustring where "page_one_text = ustr ''page1''"

definition page_two_text :: ustring where "page_two_text = ustr ''page2''"

definition doc_one :: node where
  "doc_one = Element (ustr ''html'') []
     [Element (ustr ''body'') [] [Element (ustr ''ul'') [] [shop_a_li, shop_b_li], next_anchor]]"

definition doc_two :: node where
  "doc_two = Element (ustr ''html'') []
     [Element (ustr ''body'') [] [Element (ustr ''ul'') [] [shop_c_li]]]"

definition parse_site :: parser where
  "parse_site t = (if t = page_one_text then Some doc_one
                   else if t = page_two_text then Some doc_two else None)"

definition site_two :: net where
  "site_two tr rq = (if req_url rq = url_a then Response 200 page_one_text
                     else Response 200 page_two_text)"

definition args_all_pages :: args where
  "args_all_pages = \<lparr>arg_url = url_a, arg_cookies = [], arg_timeout = 60, arg_max_pages = 0, arg_sleep = 0\<rparr>"

definition args_one_page :: args where
  "args_one_page = \<lparr>arg_url = url_a, arg_cookies = [], arg_timeout = 60, arg_max_pages = 1, arg_sleep = 0\<rparr>"

definition url_page2 :: ustring where "url_page2 = ustr ''http://a/page2''"

definition shop_a :: shop where
  "shop_a = \<lparr>name = ustr ''Shop A'', avg_price = ustr ''35'',
             recommended_dishes = [ustr ''Dish1'', ustr ''Dish2'']\<rparr>"

definition shop_b :: shop where
  "shop_b = \<lparr>name = ustr ''Shop B'', avg_price = [], recommended_dishes = []\<rparr>"

definition shop_c :: shop where
  "shop_c = \<lparr>name = ustr ''Shop C'', avg_price = ustr ''50'', recommended_dishes = [ustr ''Dish3'']\<rparr>"

definition cookie_text :: ustring where
  "cookie_text = ustr ''a=1; b = 2=3;c''"

section \<open>Auxiliary facts\<close>

lemma range3: "[0..<3] = [0, 1, 2::nat]"
  by (simp add: upt_rec)

lemma split_nonempty: "split sep s \<noteq> []"
  by (induction s) (auto split: list.splits)

lemma sublist_single: "sublist [c] s \<longleftrightarrow> c \<in> set s"
  by (induction s) (auto simp: sublist_Cons_right)

lemma length_split: "length (split sep s) = Suc (count_list s sep)"
  by (induction s) (auto split: list.splits simp: split_nonempty)

lemma split_two: "py_in [sep] s \<Longrightarrow> 2 \<le> length (split sep s)"
proof -
  assume "py_in [sep] s"
  then have "count_list s sep \<noteq> 0"
    by (simp add: py_in_def sublist_single count_list_0_iff)
  then show ?thesis by (simp add: length_split)
qed

lemma cookie_pair_ok: "py_in [eq_sign] pair \<Longrightarrow> \<exists>k v. cookie_pair pair = Inr (k, v)"
  using split_two[of eq_sign pair] by (auto simp: cookie_pair_def py_index_def)

lemma format_cookies_loop_ok: "\<exists>d'. format_cookies_loop pairs d = Inr d'"
proof (induction pairs arbitrary: d)
  case Nil
  show ?case by simp
next
  case (Cons p ps)
  show ?case
  proof (cases "py_in [eq_sign] p")
    case True
    then obtain k v where "cookie_pair p = Inr (k, v)" using cookie_pair_ok by blast
    with True Cons show ?thesis by simp
  next
    case False
    with Cons show ?thesis by simp
  qed
qed

lemma format_cookies_ok: "\<exists>d. format_cookies c = Inr d"
  by (simp add: format_cookies_def format_cookies_loop_ok)

lemma load_html_valid:
  assumes "startswith (py_lower url) (ustr ''http://'') \<or> startswith (py_lower url) (ustr ''https://'')"
  shows "\<exists>rq. req_url rq = url \<and> req_timeout rq = timeout \<and>
           load_html nt url cookies timeout referer tr = load_html_loop nt rq [0..<3] None tr"
proof -
  obtain cd where cd: "(case cookies of None \<Rightarrow> Inr None
               | Some c \<Rightarrow> if c = [] then Inr None else map_sum id Some (format_cookies c)) = Inr cd"
    using format_cookies_ok by (cases cookies) (auto, metis map_sum.simps(2))
  show ?thesis using assms unfolding load_html_def cd by (intro exI conjI) (auto)
qed

lemma load_html_invalid:
  assumes "\<not> (startswith (py_lower url) (ustr ''http://'') \<or> startswith (py_lower url) (ustr ''https://''))"
  shows "load_html nt url cookies timeout referer tr = (tr, Inl (ValueError (ustr ''Only URL is supported. Please provide a valid http(s) URL.'')))"
  using assms by (simp add: load_html_def)

lemma loop3_shape:
  assumes "load_html_loop nt rq [0..<3] None tr = (tr', res)"
  shows "tr' = tr @ [Get rq] \<or> tr' = tr @ [Get rq, Sleep 1.5, Get rq]
       \<or> tr' = tr @ [Get rq, Sleep 1.5, Get rq, Sleep 2.5, Get rq]"
  using assms by (auto simp: range3 Let_def split: get_result.splits if_splits)

lemma loop3_retry1:
  assumes "load_html_loop nt rq [0..<3] None tr = (tr', res)"
    and "nt tr rq = Response s t" and "s \<noteq> 200"
  shows "prefix (tr @ [Get rq, Sleep 1.5, Get rq]) tr'"
  using assms by (auto simp: range3 Let_def split: get_result.splits if_splits)

lemma loop3_retry2:
  assumes "load_html_loop nt rq [0..<3] None tr = (tr', res)"
    and "nt tr rq = Response s t" and "s \<noteq> 200"
    and "nt (tr @ [Get rq, Sleep 1.5]) rq = Response s' t'" and "s' \<noteq> 200"
  shows "tr' = tr @ [Get rq, Sleep 1.5, Get rq, Sleep 2.5, Get rq]"
  using assms by (auto simp: range3 Let_def split: get_result.splits if_splits)

lemma loop3_exhausted:
  assumes "load_html_loop nt rq [0..<3] None tr = (tr', res)"
    and "tr' = tr @ [Get rq, Sleep 1.5, Get rq, Sleep 2.5, Get rq]"
    and "nt (tr @ [Get rq, Sleep 1.5, Get rq, Sleep 2.5]) rq = Response s t"
    and "\<not> (s = 200 \<and> \<not> py_in challenge t)"
  shows "res = Inl (if s = 200 then RuntimeError challenge_message
                    else if s = 403 \<or> s = 429 then HTTPError s (ustr '' Forbidden/Too Many Requests'')
                    else HTTPError s (ustr '' HTTP error''))"
  using assms by (auto simp: range3 Let_def split: get_result.splits if_splits)








lemma lstrip_idem: "lstrip (lstrip s) = lstrip s"
  unfolding lstrip_def by (induction s) auto

lemma lstrip_Nil_iff: "lstrip s = [] \<longleftrightarrow> (\<forall>c \<in> set s. isspace c)"
  unfolding lstrip_def by (simp add: dropWhile_eq_Nil_conv)







lemma gets_of_append: "gets_of (xs @ ys) = gets_of xs @ gets_of ys"
  by (induction xs rule: gets_of.induct) auto

lemma rows_of_append: "rows_of (xs @ ys) = rows_of xs @ rows_of ys"
  by (induction xs rule: rows_of.induct) auto

lemma load_html_cases:
  assumes "load_html nt url cookies timeout referer tr = (tr', res)"
  shows "(\<not> (startswith (py_lower url) (ustr ''http://'') \<or> startswith (py_lower url) (ustr ''https://''))
            \<and> tr' = tr \<and> (\<exists>m. res = Inl (ValueError m)))
       \<or> (\<exists>rq. req_url rq = url \<and> req_timeout rq = timeout \<and>
             load_html_loop nt rq [0..<3] None tr = (tr', res))"
proof (cases "startswith (py_lower url) (ustr ''http://'') \<or> startswith (py_lower url) (ustr ''https://'')")
  case True
  from load_html_valid[OF True, of timeout nt cookies referer tr] assms
  show ?thesis by auto
next
  case False
  from load_html_invalid[OF False, of nt cookies timeout referer tr] assms False
  show ?thesis by auto
qed

lemmas eval_simps = ustr_def py_in_def sublist_code prefix_code strip_def lstrip_def isspace_def
  descendants_def all_nodes_def class_contains_def py_index_def Let_def

lemma shop_b_eval: "extract_shop shop_b_li =
   Inr (Some \<lparr>name = ustr ''Shop B'', avg_price = [], recommended_dishes = []\<rparr>)"
  by (simp add: shop_b_li_def
      extract_shop_def xpath_h4_text_def xpath_price_text_def xpath_dish_text_def
      eval_simps)

lemma shop_a_eval: "extract_shop shop_a_li =
   Inr (Some \<lparr>name = ustr ''Shop A'', avg_price = ustr ''35'', recommended_dishes = [ustr ''Dish1'', ustr ''Dish2'']\<rparr>)"
  by (simp add: shop_a_li_def is_price_anchor_def is_recommend_div_def is_recommend_click_def
      extract_shop_def xpath_h4_text_def xpath_price_text_def xpath_dish_text_def
      eval_simps)






lemma get_next_page_url_ok: "\<exists>r. get_next_page_url uj doc u = Inr r"
  by (cases "xpath_next_hrefs doc") (simp_all add: get_next_page_url_def py_index_def)

lemma load_html_events:
  assumes "load_html nt url cookies timeout referer tr = (tr', res)"
  shows "\<exists>evs. tr' = tr @ evs \<and> rows_of evs = [] \<and> length (gets_of evs) \<le> 3"
proof -
  from load_html_cases[OF assms]
  show ?thesis
  proof
    assume "\<not> (startswith (py_lower url) (ustr ''http://'') \<or> startswith (py_lower url) (ustr ''https://''))
            \<and> tr' = tr \<and> (\<exists>m. res = Inl (ValueError m))"
    then show ?thesis by simp
  next
    assume "\<exists>rq. req_url rq = url \<and> req_timeout rq = timeout \<and>
             load_html_loop nt rq [0..<3] None tr = (tr', res)"
    then obtain rq where "load_html_loop nt rq [0..<3] None tr = (tr', res)" by blast
    from loop3_shape[OF this] show ?thesis by auto
  qed
qed

lemma crawl_page_index:
  "crawl_page parse uj nt a st = (st', fl) \<Longrightarrow> page_index st' = page_index st + 1"
  unfolding crawl_page_def Let_def
  by (auto split: if_splits sum.splits prod.splits option.splits)

lemma crawl_page_next:
  assumes "crawl_page parse uj nt a st = (st', Next)"
  shows "current_url st' \<noteq> current_url st" and "current_url st' \<noteq> []"
    and "prev_url st' = Some (current_url st)"
    and "\<not> (arg_max_pages a \<noteq> 0 \<and> page_index st' \<ge> arg_max_pages a)"
  using assms unfolding crawl_page_def Let_def
  by (auto split: if_splits sum.splits prod.splits option.splits)

lemma crawl_page_ceiling:
  assumes "crawl_page parse uj nt a st = (st', fl)"
    and "arg_max_pages a \<noteq> 0" and "arg_max_pages a \<le> page_index st + 1"
  shows "fl \<noteq> Next" and "prev_url st' = prev_url st" and "current_url st' = current_url st"
  using assms unfolding crawl_page_def Let_def
  by (auto split: if_splits sum.splits prod.splits option.splits)

lemma rows_of_writes: "rows_of (map (\<lambda>s. WriteRow (shop_row s)) shops) = map shop_row shops"
  by (induction shops) simp_all

lemma gets_of_writes: "gets_of (map (\<lambda>s. WriteRow (shop_row s)) shops) = []"
  by (induction shops) simp_all

lemma get_next_page_url_not_Inl: "get_next_page_url uj doc u \<noteq> Inl e"
  using get_next_page_url_ok[of uj doc u] by auto

lemma crawl_page_trace:
  assumes "crawl_page parse uj nt a st = (st', fl)"
  shows "\<exists>evs shops. trace st' = trace st @ evs \<and> rows_of evs = map shop_row shops \<and>
           length (gets_of evs) \<le> 3 \<and>
           ((\<exists>e. fl = Raise e) \<longrightarrow> shops = []) \<and>
           ((\<forall>html. extract_shops parse html = Inr []) \<longrightarrow> shops = [])"
proof -
  let ?ref = "if page_index st + 1 = 1 then Inr default_referer
            else (case prev_url st of None \<Rightarrow> Inl UnboundLocalError | Some p \<Rightarrow> Inr p)"
  show ?thesis
  proof (cases ?ref)
    case (Inl e)
    with assms have "trace st' = trace st"
      by (auto simp: crawl_page_def Let_def split: if_splits option.splits)
    then show ?thesis by (intro exI[of _ "[]"]) simp
  next
    case (Inr referer)
    obtain tr res where lh: "load_html nt (current_url st) (Some (arg_cookies a)) (arg_timeout a)
                  (Some referer) (trace st) = (tr, res)" by force
    from load_html_events[OF lh] obtain evs0 where
      e0: "tr = trace st @ evs0" "rows_of evs0 = []" "length (gets_of evs0) \<le> 3" by blast
    note cp = assms[unfolded crawl_page_def Let_def] Inr lh
    show ?thesis
    proof (cases res)
      case (Inl e)
      with cp have "trace st' = tr"
        by (auto split: if_splits option.splits)
      with e0 show ?thesis by (intro exI[of _ evs0] exI[of _ "[]"]) simp
    next
      case r: (Inr html)
      show ?thesis
      proof (cases "py_in challenge html")
        case True
        with cp r have "trace st' = tr"
          by (auto split: if_splits option.splits)
        with e0 show ?thesis by (intro exI[of _ evs0] exI[of _ "[]"]) simp
      next
        case nc: False
        show ?thesis
        proof (cases "extract_shops parse html")
          case (Inl e)
          with cp r nc have "trace st' = tr"
            by (auto split: if_splits option.splits)
          with e0 show ?thesis by (intro exI[of _ evs0] exI[of _ "[]"]) simp
        next
          case es: (Inr shops)
          let ?w = "map (\<lambda>s. WriteRow (shop_row s)) shops"
          have "(trace st' = tr @ ?w \<or> trace st' = tr @ ?w @ [Sleep (arg_sleep a)])
                \<and> (\<forall>e. fl \<noteq> Raise e)"
            using cp r nc es
            by (auto simp: get_next_page_url_not_Inl split: if_splits option.splits sum.splits)
          then show ?thesis using e0 es
            by (intro exI[of _ "drop (length (trace st)) (trace st')"] exI[of _ shops])
               (auto simp: rows_of_append gets_of_append rows_of_writes gets_of_writes)
        qed
      qed
    qed
  qed
qed




lemma crawl_loop_index_bound:
  assumes "crawl_loop parse uj nt a fuel st = (st', out)"
    and "0 < arg_max_pages a" and "page_index st < arg_max_pages a"
  shows "page_index st' \<le> arg_max_pages a"
  using assms
proof (induction fuel arbitrary: st)
  case 0
  then show ?case by (auto split: if_splits)
next
  case (Suc n)
  show ?case
  proof (cases "current_url st = []")
    case True
    with Suc.prems show ?thesis by auto
  next
    case False
    obtain st1 fl where cp: "crawl_page parse uj nt a st = (st1, fl)" by force
    note ix = crawl_page_index[OF cp]
    show ?thesis
    proof (cases fl)
      case Next
      with Suc.prems False cp have lp: "crawl_loop parse uj nt a n st1 = (st', out)" by simp
      from crawl_page_next(4)[OF cp[unfolded Next]] Suc.prems(2)
      have "page_index st1 < arg_max_pages a" by auto
      from Suc.IH[OF lp Suc.prems(2) this] show ?thesis .
    next
      case Break
      with Suc.prems False cp ix show ?thesis by auto
    next
      case (Raise e)
      with Suc.prems False cp ix show ?thesis by auto
    qed
  qed
qed

lemma crawl_loop_terminates:
  assumes "page_index st < arg_max_pages a"
    and "arg_max_pages a - page_index st \<le> int fuel"
    and "0 < arg_max_pages a"
  shows "snd (crawl_loop parse uj nt a fuel st) \<noteq> OutOfFuel"
  using assms
proof (induction fuel arbitrary: st)
  case 0
  then show ?case by auto
next
  case (Suc n)
  show ?case
  proof (cases "current_url st = []")
    case True
    then show ?thesis by simp
  next
    case False
    obtain st1 fl where cp: "crawl_page parse uj nt a st = (st1, fl)" by force
    note ix = crawl_page_index[OF cp]
    show ?thesis
    proof (cases fl)
      case Next
      from crawl_page_next(4)[OF cp[unfolded Next]] Suc.prems(3)
      have lt: "page_index st1 < arg_max_pages a" by auto
      have "arg_max_pages a - page_index st1 \<le> int n" using Suc.prems(2) ix by simp
      from Suc.IH[OF lt this Suc.prems(3)] False cp Next show ?thesis by simp
    next
      case Break
      with False cp show ?thesis by simp
    next
      case (Raise e)
      with False cp show ?thesis by simp
    qed
  qed
qed

lemma crawl_loop_gets:
  "crawl_loop parse uj nt a fuel st = (st', out) \<Longrightarrow>
     int (length (gets_of (trace st'))) \<le> int (length (gets_of (trace st))) + 3 * (page_index st' - page_index st)"
proof (induction fuel arbitrary: st)
  case 0
  then show ?case by (auto split: if_splits)
next
  case (Suc n)
  show ?case
  proof (cases "current_url st = []")
    case True
    with Suc.prems show ?thesis by auto
  next
    case False
    obtain st1 fl where cp: "crawl_page parse uj nt a st = (st1, fl)" by force
    note ix = crawl_page_index[OF cp]
    from crawl_page_trace[OF cp]
    have g: "length (gets_of (trace st1)) \<le> length (gets_of (trace st)) + 3"
      by (auto simp: gets_of_append)
    show ?thesis
    proof (cases fl)
      case Next
      with Suc.prems False cp have "crawl_loop parse uj nt a n st1 = (st', out)" by simp
      from Suc.IH[OF this] g ix show ?thesis by simp
    next
      case Break
      with Suc.prems False cp ix g show ?thesis by auto
    next
      case (Raise e)
      with Suc.prems False cp ix g show ?thesis by auto
    qed
  qed
qed

lemma load_html_page_one:
  "load_html site_two url_a (Some []) 60 (Some default_referer) tr =
     (tr @ [Get rq_a], Inr page_one_text)"
  by (simp add: load_html_def url_a_def rq_a_def site_two_def range3 startswith_def py_lower_def
        lower_cp_def ustr_def py_in_def challenge_def page_one_text_def default_referer_def
        sublist_code prefix_code)

lemma load_html_page_two:
  "load_html site_two url_page2 (Some []) 60 (Some url_a) tr =
     (tr @ [Get \<lparr>req_url = url_page2, req_referer = url_a, req_cookies = None, req_timeout = 60\<rparr>],
      Inr page_two_text)"
  by (simp add: load_html_def url_a_def url_page2_def site_two_def range3 startswith_def py_lower_def
        lower_cp_def ustr_def py_in_def challenge_def page_two_text_def
        sublist_code prefix_code)

lemma shop_c_eval: "extract_shop shop_c_li = Inr (Some shop_c)"
  by (simp add: shop_c_li_def shop_c_def is_price_anchor_def is_recommend_div_def is_recommend_click_def
      extract_shop_def xpath_h4_text_def xpath_price_text_def xpath_dish_text_def
      eval_simps)

lemma candidates_one: "xpath_li_with_h4 doc_one = [shop_a_li, shop_b_li]"
  by (simp add: doc_one_def shop_a_li_def shop_b_li_def next_anchor_def xpath_li_with_h4_def
        all_nodes_def descendants_def ustr_def)

lemma candidates_two: "xpath_li_with_h4 doc_two = [shop_c_li]"
  by (simp add: doc_two_def shop_c_li_def xpath_li_with_h4_def
        all_nodes_def descendants_def ustr_def)

lemma extract_page_one: "extract_shops parse_site page_one_text = Inr [shop_a, shop_b]"
  by (simp add: extract_shops_def parse_site_def candidates_one shop_a_eval shop_b_eval
        shop_a_def shop_b_def)

lemma extract_page_two: "extract_shops parse_site page_two_text = Inr [shop_c]"
  by (simp add: extract_shops_def parse_site_def candidates_two shop_c_eval
        page_one_text_def page_two_text_def ustr_def)

lemma next_hrefs_one: "xpath_next_hrefs doc_one = [ustr ''/page2'']"
  by (simp add: doc_one_def shop_a_li_def shop_b_li_def next_anchor_def xpath_next_hrefs_def
        all_nodes_def is_next_anchor_def class_contains_def py_in_def ustr_def
        sublist_code prefix_code)

lemma next_hrefs_two: "xpath_next_hrefs doc_two = []"
  by (simp add: doc_two_def shop_c_li_def xpath_next_hrefs_def first_text_def normalize_space_def
        all_nodes_def is_next_anchor_def class_contains_def py_in_def ustr_def next_label_def
        xml_space_def sublist_code prefix_code)

lemma next_url_one: "get_next_page_url join_on_host doc_one url_a = Inr (Some url_page2)"
  by (simp add: get_next_page_url_def next_hrefs_one py_index_def join_on_host_def startswith_def
        url_page2_def ustr_def)

lemma next_url_two: "get_next_page_url join_on_host doc_two u = Inr None"
  by (simp add: get_next_page_url_def next_hrefs_two)

lemma parse_page_one: "parse_site page_one_text = Some doc_one"
  by (simp add: parse_site_def)

lemma parse_page_two: "parse_site page_two_text = Some doc_two"
  by (simp add: parse_site_def page_one_text_def page_two_text_def ustr_def)

lemma page_texts_clean: "\<not> py_in challenge page_one_text" "\<not> py_in challenge page_two_text"
  by (simp_all add: py_in_def challenge_def page_one_text_def page_two_text_def ustr_def
        sublist_code prefix_code)

lemma urls_differ: "url_page2 \<noteq> url_a" "url_page2 \<noteq> []" "url_a \<noteq> []"
  by (simp_all add: url_page2_def url_a_def ustr_def)

lemma crawl_page_one_all:
  "crawl_page parse_site join_on_host site_two args_all_pages
     \<lparr>current_url = url_a, prev_url = None, page_index = 0, trace = tr\<rparr> =
   (\<lparr>current_url = url_page2, prev_url = Some url_a, page_index = 1,
     trace = tr @ [Get rq_a, WriteRow (shop_row shop_a), WriteRow (shop_row shop_b)]\<rparr>, Next)"
  by (simp add: crawl_page_def args_all_pages_def load_html_page_one page_texts_clean
        extract_page_one parse_page_one next_url_one urls_differ)

lemma crawl_page_two_all:
  "crawl_page parse_site join_on_host site_two args_all_pages
     \<lparr>current_url = url_page2, prev_url = Some url_a, page_index = 1, trace = tr\<rparr> =
   (\<lparr>current_url = url_page2, prev_url = Some url_page2, page_index = 2,
     trace = tr @ [Get \<lparr>req_url = url_page2, req_referer = url_a, req_cookies = None, req_timeout = 60\<rparr>,
                   WriteRow (shop_row shop_c)]\<rparr>, Break)"
  by (simp add: crawl_page_def args_all_pages_def load_html_page_two page_texts_clean
        extract_page_two parse_page_two next_url_two urls_differ)

lemma crawl_page_one_capped:
  "crawl_page parse_site join_on_host site_two args_one_page
     \<lparr>current_url = url_a, prev_url = None, page_index = 0, trace = tr\<rparr> =
   (\<lparr>current_url = url_a, prev_url = None, page_index = 1,
     trace = tr @ [Get rq_a, WriteRow (shop_row shop_a), WriteRow (shop_row shop_b)]\<rparr>, Break)"
  by (simp add: crawl_page_def args_one_page_def load_html_page_one page_texts_clean
        extract_page_one)

lemma main_all_pages:
  "main parse_site join_on_host site_two args_all_pages 2 =
     (\<lparr>current_url = url_page2, prev_url = Some url_page2, page_index = 2,
       trace = [WriteRow header_row, Get rq_a, WriteRow (shop_row shop_a), WriteRow (shop_row shop_b),
                Get \<lparr>req_url = url_page2, req_referer = url_a, req_cookies = None, req_timeout = 60\<rparr>,
                WriteRow (shop_row shop_c)]\<rparr>, Done)"
proof -
  have 2: "(2::nat) = Suc (Suc 0)" by simp
  show ?thesis
    unfolding main_def 2
    by (simp add: args_all_pages_def[THEN arg_cong[of _ _ arg_url]] urls_differ
          crawl_page_one_all crawl_page_two_all)
qed

lemma main_one_page:
  "main parse_site join_on_host site_two args_one_page 1 =
     (\<lparr>current_url = url_a, prev_url = None, page_index = 1,
       trace = [WriteRow header_row, Get rq_a, WriteRow (shop_row shop_a), WriteRow (shop_row shop_b)]\<rparr>,
      Done)"
proof -
  have 1: "(1::nat) = Suc 0" by simp
  show ?thesis
    unfolding main_def 1
    by (simp add: args_one_page_def[THEN arg_cong[of _ _ arg_url]] urls_differ crawl_page_one_capped)
qed

lemma scenario_rows:
  "rows_of (trace (fst (main parse_site join_on_host site_two args_all_pages 2))) =
     [[ustr ''name'', ustr ''avg_price'', ustr ''recommended_dishes''],
      [ustr ''Shop A'', ustr ''35'', ustr ''Dish1'' @ [0x3001] @ ustr ''Dish2''],
      [ustr ''Shop B'', [], []],
      [ustr ''Shop C'', ustr ''50'', ustr ''Dish3'']]"
  by (simp add: main_all_pages header_row_def shop_row_def shop_a_def shop_b_def shop_c_def)




lemma split_unfold:
  "split sep s = takeWhile (\<lambda>c. c \<noteq> sep) s #
     (case dropWhile (\<lambda>c. c \<noteq> sep) s of [] \<Rightarrow> [] | c # r \<Rightarrow> split sep r)"
  by (induction s) (auto split: list.splits)

lemma split_index0: "py_index (split sep s) 0 = Inr (takeWhile (\<lambda>c. c \<noteq> sep) s)"
  by (subst split_unfold) (simp add: py_index_def)

lemma split_index1:
  assumes "sep \<in> set s"
  shows "py_index (split sep s) 1 =
           Inr (takeWhile (\<lambda>c. c \<noteq> sep) (tl (dropWhile (\<lambda>c. c \<noteq> sep) s)))"
proof -
  from assms obtain r where d: "dropWhile (\<lambda>c. c \<noteq> sep) s = sep # r"
    by (metis (mono_tags, lifting) dropWhile_eq_Nil_conv hd_dropWhile list.collapse)
  have "split sep s = takeWhile (\<lambda>c. c \<noteq> sep) s # split sep r"
    by (subst split_unfold) (simp add: d)
  moreover have "split sep r = takeWhile (\<lambda>c. c \<noteq> sep) r #
     (case dropWhile (\<lambda>c. c \<noteq> sep) r of [] \<Rightarrow> [] | c # r' \<Rightarrow> split sep r')"
    by (rule split_unfold)
  ultimately show ?thesis by (simp add: py_index_def d)
qed

lemma cookie_pair_eq:
  assumes "eq_sign \<in> set pair"
  shows "cookie_pair pair =
     Inr (strip (takeWhile (\<lambda>c. c \<noteq> eq_sign) pair),
          strip (takeWhile (\<lambda>c. c \<noteq> eq_sign) (tl (dropWhile (\<lambda>c. c \<noteq> eq_sign) pair))))"
  unfolding cookie_pair_def split_index0 split_index1[OF assms] by simp

lemma format_cookies_loop_eq:
  "format_cookies_loop pairs d =
     Inr (d ++ map_of (rev (map (\<lambda>seg. (strip (takeWhile (\<lambda>c. c \<noteq> eq_sign) seg),
                 strip (takeWhile (\<lambda>c. c \<noteq> eq_sign) (tl (dropWhile (\<lambda>c. c \<noteq> eq_sign) seg)))))
            (filter (\<lambda>seg. eq_sign \<in> set seg) pairs))))"
proof (induction pairs arbitrary: d)
  case Nil
  show ?case by simp
next
  case (Cons p ps)
  show ?case
  proof (cases "eq_sign \<in> set p")
    case True
    then have "py_in [eq_sign] p" by (simp add: py_in_def sublist_single)
    with True show ?thesis
      by (simp add: cookie_pair_eq Cons)
         (simp add: map_add_def fun_eq_iff split: option.splits)
  next
    case False
    then have "\<not> py_in [eq_sign] p" by (simp add: py_in_def sublist_single)
    with False show ?thesis by (simp add: Cons)
  qed
qed

lemma split_join: "join [sep] (split sep s) = s"
proof (induction s)
  case Nil
  show ?case by simp
next
  case (Cons c cs)
  obtain w ws where sp: "split sep cs = w # ws" using split_nonempty[of sep cs] by (cases "split sep cs") auto
  show ?case
  proof (cases "c = sep")
    case True
    with Cons sp show ?thesis by simp
  next
    case False
    with Cons sp show ?thesis by (cases ws) auto
  qed
qed

lemma split_no_sep: "seg \<in> set (split sep s) \<Longrightarrow> sep \<notin> set seg"
  by (induction s arbitrary: seg) (auto split: if_splits list.splits)

lemma cookie_text_segments:
  "split semicolon cookie_text = [ustr ''a=1'', ustr '' b = 2=3'', ustr ''c'']"
  by (simp add: cookie_text_def semicolon_def ustr_def)

section \<open>Properties\<close>

text \<open>
  C5. Every fetch makes at most three GET requests. The events it adds are the request
  alone, or requests separated by a sleep of 1.5 s and then of 2.5 s, never a sleep after
  the last one. With an http(s) URL, a first response with a status other than 200 is
  followed by the 1.5 s sleep and a second request, a second such response by the 2.5 s
  sleep and a third request; and when the third response is not a usable page either, the
  fetch fails with the error recorded for it: the HTTP error carrying that status, or the
  challenge-page error.
\<close>

theorem load_html_attempts_backoff:
  assumes run: "load_html nt url cookies timeout referer tr = (tr', res)"
  shows "\<exists>rq. req_url rq = url \<and> req_timeout rq = timeout \<and>
     (tr' = tr \<or> tr' = tr @ [Get rq] \<or> tr' = tr @ [Get rq, Sleep 1.5, Get rq]
        \<or> tr' = tr @ [Get rq, Sleep 1.5, Get rq, Sleep 2.5, Get rq]) \<and>
     length (gets_of tr') \<le> length (gets_of tr) + 3 \<and>
     (startswith (py_lower url) (ustr ''http://'') \<or> startswith (py_lower url) (ustr ''https://'') \<longrightarrow>
        (\<forall>s t. nt tr rq = Response s t \<and> s \<noteq> 200 \<longrightarrow>
           prefix (tr @ [Get rq, Sleep 1.5, Get rq]) tr') \<and>
        (\<forall>s t s' t'. nt tr rq = Response s t \<and> s \<noteq> 200 \<and>
             nt (tr @ [Get rq, Sleep 1.5]) rq = Response s' t' \<and> s' \<noteq> 200 \<longrightarrow>
           tr' = tr @ [Get rq, Sleep 1.5, Get rq, Sleep 2.5, Get rq]) \<and>
        (\<forall>s t. tr' = tr @ [Get rq, Sleep 1.5, Get rq, Sleep 2.5, Get rq] \<and>
             nt (tr @ [Get rq, Sleep 1.5, Get rq, Sleep 2.5]) rq = Response s t \<and>
             \<not> (s = 200 \<and> \<not> py_in challenge t) \<longrightarrow>
           res = Inl (if s = 200 then RuntimeError challenge_message
                      else if s = 403 \<or> s = 429
                      then HTTPError s (ustr '' Forbidden/Too Many Requests'')
                      else HTTPError s (ustr '' HTTP error''))))"
proof -
  from load_html_cases[OF run]
  show ?thesis
  proof
    assume inv: "\<not> (startswith (py_lower url) (ustr ''http://'') \<or> startswith (py_lower url) (ustr ''https://''))
            \<and> tr' = tr \<and> (\<exists>m. res = Inl (ValueError m))"
    show ?thesis
      by (rule exI[of _ "\<lparr>req_url = url, req_referer = [], req_cookies = None, req_timeout = timeout\<rparr>"])
         (use inv in simp)
  next
    assume "\<exists>rq. req_url rq = url \<and> req_timeout rq = timeout \<and>
             load_html_loop nt rq [0..<3] None tr = (tr', res)"
    then obtain rq where rq: "req_url rq = url" "req_timeout rq = timeout"
      and lp: "load_html_loop nt rq [0..<3] None tr = (tr', res)" by blast
    have shape: "tr' = tr @ [Get rq] \<or> tr' = tr @ [Get rq, Sleep 1.5, Get rq]
        \<or> tr' = tr @ [Get rq, Sleep 1.5, Get rq, Sleep 2.5, Get rq]"
      by (rule loop3_shape[OF lp])
    then have len: "length (gets_of tr') \<le> length (gets_of tr) + 3"
      by (auto simp: gets_of_append)
    show ?thesis
      apply (rule exI[of _ rq])
      apply (intro conjI impI allI)
      subgoal by (rule rq)
      subgoal by (rule rq)
      subgoal using shape by blast
      subgoal by (rule len)
      subgoal for s t using loop3_retry1[OF lp] by blast
      subgoal for s t s' t' using loop3_retry2[OF lp] by blast
      subgoal for s t using loop3_exhausted[OF lp] by blast
      done
  qed
qed

lemma load_html_busy:
  "load_html site_busy url_a None 60 None [] =
     ([Get rq_a, Sleep 1.5, Get rq_a, Sleep 2.5, Get rq_a],
      Inl (HTTPError 429 (ustr '' Forbidden/Too Many Requests'')))"
  by (simp add: load_html_def url_a_def rq_a_def site_busy_def range3 startswith_def py_lower_def
        lower_cp_def ustr_def)

theorem load_html_attempts_backoff_witness:
  "load_html site_busy url_a None 60 None [] =
     ([Get rq_a, Sleep 1.5, Get rq_a, Sleep 2.5, Get rq_a],
      Inl (HTTPError 429 (ustr '' Forbidden/Too Many Requests''))) \<and>
   length (gets_of [Get rq_a, Sleep 1.5, Get rq_a, Sleep 2.5, Get rq_a]) \<le> length (gets_of []) + 3"
  using load_html_attempts_backoff[OF load_html_busy] load_html_busy by blast













lemma blank_heading_parse: "parse_blank_heading blank_heading_text = Some blank_heading_doc"
  by (simp add: parse_blank_heading_def)

lemma blank_heading_candidates: "xpath_li_with_h4 blank_heading_doc = [blank_heading_li]"
  by (simp add: blank_heading_doc_def blank_heading_li_def xpath_li_with_h4_def all_nodes_def
        descendants_def ustr_def)

lemma blank_heading_h4_text: "xpath_h4_text blank_heading_li = [[0x20]]"
  by (simp add: blank_heading_li_def xpath_h4_text_def descendants_def)

lemma blank_heading_shop:
  "extract_shop blank_heading_li = Inr (Some \<lparr>name = [], avg_price = [], recommended_dishes = []\<rparr>)"
proof -
  have p: "xpath_price_text blank_heading_li = []"
    by (simp add: blank_heading_li_def xpath_price_text_def descendants_def)
  have d: "xpath_dish_text blank_heading_li = []"
    by (simp add: blank_heading_li_def xpath_dish_text_def descendants_def)
  have s: "strip [0x20] = []"
    by (simp add: strip_def lstrip_def isspace_def)
  show ?thesis
    by (simp add: extract_shop_def blank_heading_h4_text p d py_index_def s)
qed

text \<open>
  C2 fails on the code. The block \<open><li><h4> </h4></li>\<close> has a heading whose only text
  is a space: the list of heading texts is not empty, so the block is kept, and the record
  it yields has the empty name.
\<close>

theorem extract_shops_blank_heading:
  "parse_blank_heading blank_heading_text = Some blank_heading_doc \<and>
   xpath_li_with_h4 blank_heading_doc = [blank_heading_li] \<and>
   xpath_h4_text blank_heading_li = [[0x20]] \<and>
   extract_shops parse_blank_heading blank_heading_text =
     Inr [\<lparr>name = [], avg_price = [], recommended_dishes = []\<rparr>]"
  by (simp add: extract_shops_def blank_heading_parse blank_heading_candidates blank_heading_h4_text
        blank_heading_shop)






text \<open>
  C4. With a positive page ceiling, a run never counts more pages than the ceiling, sends
  at most three requests for each of them, and ends within that many passes through the
  loop. A pass that reaches the ceiling ends the loop before the next link is looked at
  (\<open>prev_url\<close> and \<open>current_url\<close> are left as they were), and a pass that advances does so
  to a URL different from the current one, which becomes \<open>prev_url\<close>.
\<close>

theorem main_max_pages:
  assumes "0 < arg_max_pages a"
  shows "page_index (fst (main parse uj nt a fuel)) \<le> arg_max_pages a \<and>
         int (length (gets_of (trace (fst (main parse uj nt a fuel))))) \<le> 3 * arg_max_pages a \<and>
         snd (main parse uj nt a (nat (arg_max_pages a))) \<noteq> OutOfFuel \<and>
         (\<forall>st st' fl. crawl_page parse uj nt a st = (st', fl) \<and> arg_max_pages a \<le> page_index st + 1 \<longrightarrow>
            fl \<noteq> Next \<and> prev_url st' = prev_url st \<and> current_url st' = current_url st) \<and>
         (\<forall>st st'. crawl_page parse uj nt a st = (st', Next) \<longrightarrow>
            current_url st' \<noteq> current_url st \<and> prev_url st' = Some (current_url st))"
proof (intro conjI allI impI)
  let ?st0 = "\<lparr>current_url = arg_url a, prev_url = None, page_index = 0,
        trace = [WriteRow header_row]\<rparr>"
  obtain st' out where m: "crawl_loop parse uj nt a fuel ?st0 = (st', out)" by force
  from crawl_loop_index_bound[OF m assms] assms
  show b: "page_index (fst (main parse uj nt a fuel)) \<le> arg_max_pages a"
    unfolding main_def m by simp
  from crawl_loop_gets[OF m] b
  show "int (length (gets_of (trace (fst (main parse uj nt a fuel))))) \<le> 3 * arg_max_pages a"
    unfolding main_def m by simp
  show "snd (main parse uj nt a (nat (arg_max_pages a))) \<noteq> OutOfFuel"
    unfolding main_def using assms by (intro crawl_loop_terminates) simp_all
next
  fix st st' fl
  assume a: "crawl_page parse uj nt a st = (st', fl) \<and> arg_max_pages a \<le> page_index st + 1"
  have nz: "arg_max_pages a \<noteq> 0" using assms by simp
  from a crawl_page_ceiling[of parse uj nt a st st' fl, OF _ nz]
  show "fl \<noteq> Next" "prev_url st' = prev_url st" "current_url st' = current_url st" by blast+
next
  fix st st'
  assume a: "crawl_page parse uj nt a st = (st', Next)"
  from crawl_page_next[OF a]
  show "current_url st' \<noteq> current_url st" "prev_url st' = Some (current_url st)" by blast+
qed

theorem main_max_pages_witness:
  "0 < arg_max_pages args_one_page \<and>
   page_index (fst (main parse_site join_on_host site_two args_one_page 1)) = 1 \<and>
   page_index (fst (main parse_site join_on_host site_two args_one_page 1)) \<le> arg_max_pages args_one_page \<and>
   snd (main parse_site join_on_host site_two args_one_page (nat (arg_max_pages args_one_page))) \<noteq> OutOfFuel"
proof -
  have p: "0 < arg_max_pages args_one_page" by (simp add: args_one_page_def)
  have q: "page_index (fst (main parse_site join_on_host site_two args_one_page 1)) = 1"
    unfolding main_one_page by simp
  from main_max_pages[OF p, of parse_site join_on_host site_two 1] p q
  show ?thesis by blast
qed

text \<open>
  C9. The cookie parser never fails. Its dictionary holds, for each semicolon-separated
  segment that contains \<open>=\<close>, the trimmed text before the first \<open>=\<close> mapped to the trimmed
  text between the first \<open>=\<close> and the second (or the end), a later segment overriding an
  earlier one; segments without \<open>=\<close> add nothing, and what follows a second \<open>=\<close> is
  dropped.
\<close>

theorem format_cookies_spec:
  "format_cookies cookies_str =
     Inr (map_of (rev (map (\<lambda>seg. (strip (takeWhile (\<lambda>c. c \<noteq> eq_sign) seg),
                 strip (takeWhile (\<lambda>c. c \<noteq> eq_sign) (tl (dropWhile (\<lambda>c. c \<noteq> eq_sign) seg)))))
            (filter (\<lambda>seg. eq_sign \<in> set seg) (split semicolon cookies_str))))) \<and>
   join [semicolon] (split semicolon cookies_str) = cookies_str \<and>
   (\<forall>seg \<in> set (split semicolon cookies_str). semicolon \<notin> set seg) \<and>
   (\<forall>a b c. eq_sign \<notin> set a \<and> eq_sign \<notin> set b \<longrightarrow>
      cookie_pair (a @ eq_sign # b @ eq_sign # c) = Inr (strip a, strip b)) \<and>
   (\<forall>a b. eq_sign \<notin> set a \<and> eq_sign \<notin> set b \<longrightarrow>
      cookie_pair (a @ eq_sign # b) = Inr (strip a, strip b))"
proof (intro conjI allI impI ballI)
  show "format_cookies cookies_str =
     Inr (map_of (rev (map (\<lambda>seg. (strip (takeWhile (\<lambda>c. c \<noteq> eq_sign) seg),
                 strip (takeWhile (\<lambda>c. c \<noteq> eq_sign) (tl (dropWhile (\<lambda>c. c \<noteq> eq_sign) seg)))))
            (filter (\<lambda>seg. eq_sign \<in> set seg) (split semicolon cookies_str)))))"
    by (simp add: format_cookies_def format_cookies_loop_eq)
next
  show "join [semicolon] (split semicolon cookies_str) = cookies_str" by (rule split_join)
next
  fix seg assume "seg \<in> set (split semicolon cookies_str)"
  then show "semicolon \<notin> set seg" by (rule split_no_sep)
next
  fix a b c :: ustring
  assume h: "eq_sign \<notin> set a \<and> eq_sign \<notin> set b"
  then have 1: "takeWhile (\<lambda>c. c \<noteq> eq_sign) (a @ eq_sign # b @ eq_sign # c) = a"
    by (auto simp: takeWhile_append)
  from h have 2: "dropWhile (\<lambda>c. c \<noteq> eq_sign) (a @ eq_sign # b @ eq_sign # c) = eq_sign # b @ eq_sign # c"
    by (auto simp: dropWhile_append3)
  from h have 3: "takeWhile (\<lambda>c. c \<noteq> eq_sign) (b @ eq_sign # c) = b"
    by (auto simp: takeWhile_append)
  show "cookie_pair (a @ eq_sign # b @ eq_sign # c) = Inr (strip a, strip b)"
    by (subst cookie_pair_eq) (simp_all add: 1 2 3)
next
  fix a b :: ustring
  assume h: "eq_sign \<notin> set a \<and> eq_sign \<notin> set b"
  then have 1: "takeWhile (\<lambda>c. c \<noteq> eq_sign) (a @ eq_sign # b) = a"
    by (auto simp: takeWhile_append)
  from h have 2: "dropWhile (\<lambda>c. c \<noteq> eq_sign) (a @ eq_sign # b) = eq_sign # b"
    by (auto simp: dropWhile_append3)
  from h have 3: "takeWhile (\<lambda>c. c \<noteq> eq_sign) b = b"
    by (auto simp: takeWhile_eq_all_conv)
  show "cookie_pair (a @ eq_sign # b) = Inr (strip a, strip b)"
    by (subst cookie_pair_eq) (simp_all add: 1 2 3)
qed

theorem format_cookies_spec_witness:
  "split semicolon cookie_text = [ustr ''a=1'', ustr '' b = 2=3'', ustr ''c''] \<and>
   (\<exists>d. format_cookies cookie_text = Inr d \<and> d (ustr ''a'') = Some (ustr ''1'') \<and>
        d (ustr ''b'') = Some (ustr ''2'') \<and> d (ustr ''c'') = None)"
proof -
  have "format_cookies cookie_text =
     Inr (map_of (rev (map (\<lambda>seg. (strip (takeWhile (\<lambda>c. c \<noteq> eq_sign) seg),
                 strip (takeWhile (\<lambda>c. c \<noteq> eq_sign) (tl (dropWhile (\<lambda>c. c \<noteq> eq_sign) seg)))))
            (filter (\<lambda>seg. eq_sign \<in> set seg) (split semicolon cookie_text)))))"
    using format_cookies_spec[of cookie_text] by blast
  then show ?thesis
    unfolding cookie_text_segments
    by (simp add: eq_sign_def ustr_def strip_def lstrip_def isspace_def)
qed

end
